theory Spec2Isabelle
  imports Complex_Main "HOL-Library.Char_ord" "HOL-Library.List_Lexorder" "HOL-Library.Product_Lexorder"
begin

section \<open>Cells, columns and frames\<close>

text \<open>
  The program of \<^verbatim>\<open>pandas_questions.py\<close> works on pandas tables. A table is modelled
  column by column, as pandas stores it: a list of named columns, each a list of cells.
  A cell holds an integer, a string or the missing value (NaN). pandas infers the storage
  of a column from its cells: a column of integers is stored as integers, a column of
  integers with a missing value as floating-point numbers (the integer \<open>n\<close> as the
  float \<open>n.0\<close>), a column with a string as Python objects. Integers are taken
  without bound: the 64-bit range of the stored numbers is not part of the model.
\<close>

datatype cell = IntV int | StrV string | NaN

type_synonym column = "cell list"
type_synonym frame = "(string \<times> column) list"

fun is_int :: "cell \<Rightarrow> bool" where
  "is_int (IntV i) = True"
| "is_int _ = False"

fun is_str :: "cell \<Rightarrow> bool" where
  "is_str (StrV s) = True"
| "is_str _ = False"

text \<open>The exceptions of Python and pandas that the operations below can raise.\<close>

datatype error = KeyError | AttributeError | ValueError | MergeError | TypeError

definition names :: "frame \<Rightarrow> string list" where
  "names f = map fst f"

text \<open>The number of rows of a table: the length of its columns.\<close>

definition nrows :: "frame \<Rightarrow> nat" where
  "nrows f = (case f of [] \<Rightarrow> 0 | (c, vs) # _ \<Rightarrow> length vs)"

text \<open>Every column of a table has the same length, and its column names differ.\<close>

definition wf_frame :: "frame \<Rightarrow> bool" where
  "wf_frame f \<longleftrightarrow> distinct (names f) \<and> (\<forall>(c, vs) \<in> set f. length vs = nrows f)"

text \<open>Row \<open>k\<close> of a table, and the list of its rows.\<close>

definition row_at :: "frame \<Rightarrow> nat \<Rightarrow> cell list" where
  "row_at f k = map (\<lambda>(c, vs). vs ! k) f"

definition rows_of :: "frame \<Rightarrow> cell list list" where
  "rows_of f = map (row_at f) [0..<nrows f]"

text \<open>The column of a table with a given name, for a name that one column carries.\<close>

definition column_of :: "frame \<Rightarrow> string \<Rightarrow> column" where
  "column_of f c = concat (map snd (filter (\<lambda>p. fst p = c) f))"

text \<open>A column name that does not end with one of the suffixes \<^verbatim>\<open>_x\<close> and \<^verbatim>\<open>_y\<close> of a merge.\<close>

definition plain_name :: "string \<Rightarrow> bool" where
  "plain_name c \<longleftrightarrow> drop (length c - 2) c \<noteq> ''_x'' \<and> drop (length c - 2) c \<noteq> ''_y''"

section \<open>The string functions: \<^verbatim>\<open>astype(str)\<close> and \<^verbatim>\<open>str.zfill\<close>\<close>

definition digit_char :: "nat \<Rightarrow> char" where
  "digit_char d = char_of (48 + d)"

fun str_nat :: "nat \<Rightarrow> string" where
  "str_nat n = (if n < 10 then [digit_char n] else str_nat (n div 10) @ [digit_char (n mod 10)])"

declare str_nat.simps [simp del]

text \<open>Python's \<^verbatim>\<open>str\<close> on an integer.\<close>

definition str_int :: "int \<Rightarrow> string" where
  "str_int i = (if i < 0 then CHR ''-'' # str_nat (nat (- i)) else str_nat (nat i))"

text \<open>
  \<^verbatim>\<open>Series.astype(str)\<close>: every cell becomes the string that Python's \<^verbatim>\<open>str\<close> gives
  for it. The missing value becomes the string \<^verbatim>\<open>nan\<close>. An integer becomes its digits
  where the column is stored as integers or objects, and its digits followed by \<^verbatim>\<open>.0\<close>
  where the column is stored as floats (the exponent notation of floats from \<open>10\<^sup>1\<^sup>6\<close>
  on is not modelled).
\<close>

fun astype_str :: "cell \<Rightarrow> cell" where
  "astype_str (IntV i) = StrV (str_int i)"
| "astype_str (StrV s) = StrV s"
| "astype_str NaN = StrV ''nan''"

fun str_float :: "cell \<Rightarrow> cell" where
  "str_float (IntV i) = StrV (str_int i @ ''.0'')"
| "str_float (StrV s) = StrV s"
| "str_float NaN = StrV ''nan''"

definition float_col :: "column \<Rightarrow> bool" where
  "float_col vs \<longleftrightarrow> NaN \<in> set vs \<and> (\<forall>v \<in> set vs. \<not> is_str v)"

definition astype_str_col :: "column \<Rightarrow> column" where
  "astype_str_col vs = (if float_col vs then map str_float vs else map astype_str vs)"

text \<open>
  \<^verbatim>\<open>str.zfill(width)\<close>: a string shorter than the width is filled with zeros on the left,
  after its sign if it starts with one; a string of the width or longer is returned as it is.
\<close>

definition zfill :: "nat \<Rightarrow> string \<Rightarrow> string" where
  "zfill w s =
     (if w \<le> length s then s
      else (case s of
              c # rest \<Rightarrow>
                (if c = CHR ''+'' \<or> c = CHR ''-''
                 then c # replicate (w - length s) CHR ''0'' @ rest
                 else replicate (w - length s) CHR ''0'' @ s)
            | [] \<Rightarrow> replicate w CHR ''0''))"

text \<open>\<^verbatim>\<open>Series.str.zfill\<close>: a cell that is not a string becomes missing.\<close>

fun str_zfill :: "nat \<Rightarrow> cell \<Rightarrow> cell" where
  "str_zfill w (StrV s) = StrV (zfill w s)"
| "str_zfill w _ = NaN"

text \<open>The expression \<^verbatim>\<open>col.astype(str).str.zfill(2)\<close> of the source, on one column.\<close>

definition pad_codes :: "column \<Rightarrow> column" where
  "pad_codes vs = map (str_zfill 2) (astype_str_col vs)"

section \<open>The table operations of pandas that the program calls\<close>

text \<open>All the columns of a table that carry a given name.\<close>

definition cols_named :: "string \<Rightarrow> frame \<Rightarrow> column list" where
  "cols_named c f = map snd (filter (\<lambda>p. fst p = c) f)"

text \<open>
  \<^verbatim>\<open>df[c]\<close> followed by a column method: a missing name raises KeyError; a name
  carried by two columns selects a table, on which the column method raises AttributeError.
\<close>

definition df_getitem :: "frame \<Rightarrow> string \<Rightarrow> error + column" where
  "df_getitem f c =
     (case cols_named c f of [] \<Rightarrow> Inl KeyError | [vs] \<Rightarrow> Inr vs | _ \<Rightarrow> Inl AttributeError)"

text \<open>\<^verbatim>\<open>df[c] = vs\<close>: the column is replaced where it stands, or appended when the name is new.\<close>

definition df_setitem :: "frame \<Rightarrow> string \<Rightarrow> column \<Rightarrow> frame" where
  "df_setitem f c vs =
     (if c \<in> set (names f) then map (\<lambda>p. if fst p = c then (c, vs) else p) f
      else f @ [(c, vs)])"

text \<open>\<^verbatim>\<open>df.rename(columns=m)\<close>: a new table, the columns named in \<open>m\<close> renamed.\<close>

definition rename_name :: "(string \<times> string) list \<Rightarrow> string \<Rightarrow> string" where
  "rename_name m c = (case map_of m c of Some c' \<Rightarrow> c' | None \<Rightarrow> c)"

definition df_rename :: "(string \<times> string) list \<Rightarrow> frame \<Rightarrow> frame" where
  "df_rename m f = map (\<lambda>p. (rename_name m (fst p), snd p)) f"

text \<open>\<^verbatim>\<open>df[[c1, ..., cn]]\<close>: the named columns in the order asked; a missing name raises KeyError.\<close>

definition df_select :: "string list \<Rightarrow> frame \<Rightarrow> error + frame" where
  "df_select cs f =
     (if \<exists>c \<in> set cs. c \<notin> set (names f) then Inl KeyError
      else Inr (concat (map (\<lambda>c. filter (\<lambda>p. fst p = c) f) cs)))"

text \<open>\<^verbatim>\<open>df.dropna()\<close>: the rows without a missing value, in their order.\<close>

definition complete_row :: "frame \<Rightarrow> nat \<Rightarrow> bool" where
  "complete_row f k \<longleftrightarrow> (\<forall>p \<in> set f. snd p ! k \<noteq> NaN)"

definition complete_rows :: "frame \<Rightarrow> nat list" where
  "complete_rows f = filter (complete_row f) [0..<nrows f]"

definition df_dropna :: "frame \<Rightarrow> frame" where
  "df_dropna f = map (\<lambda>p. (fst p, map ((!) (snd p)) (complete_rows f))) f"

subsection \<open>\<^verbatim>\<open>merge\<close>\<close>

text \<open>
  pandas infers the type of a column from its values: integers and missing values make a
  numeric column, strings (and missing values) a column of text. A merge whose two key
  columns are one numeric and one of text raises ValueError, unless one of them is empty.
\<close>

definition numeric_col :: "column \<Rightarrow> bool" where
  "numeric_col vs \<longleftrightarrow> vs \<noteq> [] \<and> (\<forall>v \<in> set vs. \<not> is_str v)"

definition text_col :: "column \<Rightarrow> bool" where
  "text_col vs \<longleftrightarrow> (\<exists>v \<in> set vs. is_str v) \<and> (\<forall>v \<in> set vs. \<not> is_int v)"

definition keys_clash :: "column \<Rightarrow> column \<Rightarrow> bool" where
  "keys_clash lk rk \<longleftrightarrow> (numeric_col lk \<and> text_col rk) \<or> (text_col lk \<and> numeric_col rk)"

text \<open>
  The rows of the right key column that carry a key. Keys are compared as values; two
  missing keys match each other, as in pandas.
\<close>

definition matches :: "cell \<Rightarrow> column \<Rightarrow> nat list" where
  "matches k rk = filter (\<lambda>j. rk ! j = k) [0..<length rk]"

datatype how = LeftJoin | InnerJoin

text \<open>
  The pairs (left row, right row) of the result, in the order of the left rows. A left
  row without a match is kept by the left join, paired with no right row, and dropped by
  the inner join.
\<close>

definition row_pairs :: "how \<Rightarrow> column \<Rightarrow> nat \<Rightarrow> column \<Rightarrow> (nat \<times> nat option) list" where
  "row_pairs h lk i rk =
     (if matches (lk ! i) rk = [] \<and> h = LeftJoin then [(i, None)]
      else map (\<lambda>j. (i, Some j)) (matches (lk ! i) rk))"

definition join_indexers :: "how \<Rightarrow> column \<Rightarrow> column \<Rightarrow> (nat \<times> nat option) list" where
  "join_indexers h lk rk = concat (map (\<lambda>i. row_pairs h lk i rk) [0..<length lk])"

definition take_left :: "(nat \<times> nat option) list \<Rightarrow> column \<Rightarrow> column" where
  "take_left ix vs = map (\<lambda>p. vs ! fst p) ix"

definition take_right :: "(nat \<times> nat option) list \<Rightarrow> column \<Rightarrow> column" where
  "take_right ix vs = map (\<lambda>p. case snd p of None \<Rightarrow> NaN | Some j \<Rightarrow> vs ! j) ix"

text \<open>
  A column name that both tables carry gets the suffix \<^verbatim>\<open>_x\<close> on the left and \<^verbatim>\<open>_y\<close>
  on the right. When a suffix makes a name collide with another name of the same table,
  the merge raises MergeError.
\<close>

definition add_suffix :: "string \<Rightarrow> string list \<Rightarrow> string \<Rightarrow> string" where
  "add_suffix sfx other c = (if c \<in> set other then c @ sfx else c)"

definition suffix_dups :: "string list \<Rightarrow> string list \<Rightarrow> nat list" where
  "suffix_dups orig ren =
     filter (\<lambda>i. ren ! i \<in> set (take i ren) \<and> orig ! i \<notin> set (take i orig)) [0..<length ren]"

text \<open>The key column of a merge: a missing name raises KeyError, a name carried twice ValueError.\<close>

definition key_column :: "frame \<Rightarrow> string \<Rightarrow> error + column" where
  "key_column f c =
     (case cols_named c f of [] \<Rightarrow> Inl KeyError | [vs] \<Rightarrow> Inr vs | _ \<Rightarrow> Inl ValueError)"

text \<open>
  The columns of the result, from the pairs of rows: the columns of the left table, then
  those of the right table, whose cells are missing where a left row has no match.
\<close>

definition merge_columns :: "(nat \<times> nat option) list \<Rightarrow> frame \<Rightarrow> frame \<Rightarrow> frame" where
  "merge_columns ix l r =
     map (\<lambda>p. (add_suffix ''_x'' (names r) (fst p), take_left ix (snd p))) l
     @ map (\<lambda>p. (add_suffix ''_y'' (names l) (fst p), take_right ix (snd p))) r"

text \<open>
  \<^verbatim>\<open>l.merge(r, left_on=lc, right_on=rc, how=h)\<close> with two different key names, as at
  every call of the program.
\<close>

definition df_merge :: "how \<Rightarrow> string \<Rightarrow> string \<Rightarrow> frame \<Rightarrow> frame \<Rightarrow> error + frame" where
  "df_merge h lc rc l r =
     (case key_column l lc of
        Inl e \<Rightarrow> Inl e
      | Inr lk \<Rightarrow>
          (case key_column r rc of
             Inl e \<Rightarrow> Inl e
           | Inr rk \<Rightarrow>
               (if keys_clash lk rk then Inl ValueError
                else if suffix_dups (names l) (map (add_suffix ''_x'' (names r)) (names l)) \<noteq> []
                        \<or> suffix_dups (names r) (map (add_suffix ''_y'' (names l)) (names r)) \<noteq> []
                then Inl MergeError
                else Inr (merge_columns (join_indexers h lk rk) l r))))"

section \<open>The Area Resolver\<close>

text \<open>
  \<^verbatim>\<open>merge_regions_and_departments(regions, departments)\<close>. The two \<^verbatim>\<open>rename\<close> calls make
  new tables, so the column assignment changes the function's own table and not the
  caller's. The debugging \<^verbatim>\<open>print\<close> calls are left out.
\<close>

definition merge_regions_and_departments :: "frame \<Rightarrow> frame \<Rightarrow> error + frame" where
  "merge_regions_and_departments regions departments =
     (let regions1 = df_rename [(''code'', ''code_reg''), (''name'', ''name_reg'')] regions;
          departments1 = df_rename [(''code'', ''code_dep''), (''name'', ''name_dep'')] departments
      in (case df_getitem departments1 ''code_dep'' of
            Inl e \<Rightarrow> Inl e
          | Inr codes \<Rightarrow>
              (case df_merge LeftJoin ''region_code'' ''code_reg''
                      (df_setitem departments1 ''code_dep'' (pad_codes codes)) regions1 of
                 Inl e \<Rightarrow> Inl e
               | Inr merged \<Rightarrow>
                   df_select [''code_reg'', ''name_reg'', ''code_dep'', ''name_dep''] merged)))"


section \<open>The Ballot Joiner\<close>


section \<open>The Regional Aggregator\<close>














section \<open>The Choropleth Renderer\<close>







section \<open>The input tables of the components\<close>

text \<open>
  The column names of the tables the Area Resolver is made for: the region table has the
  columns \<^verbatim>\<open>code\<close> and \<^verbatim>\<open>name\<close>, the department table the columns \<^verbatim>\<open>code\<close>, \<^verbatim>\<open>name\<close>
  and \<^verbatim>\<open>region_code\<close>; both may have more columns, also shared ones (as \<^verbatim>\<open>id\<close> and
  \<^verbatim>\<open>slug\<close> in the data files). No column has one of the four names of the result yet,
  and no name ends with a suffix of the merge.
\<close>

definition resolver_schema :: "string list \<Rightarrow> string list \<Rightarrow> bool" where
  "resolver_schema rs ds \<longleftrightarrow>
     distinct rs \<and> distinct ds
     \<and> ''code'' \<in> set rs \<and> ''name'' \<in> set rs
     \<and> ''code'' \<in> set ds \<and> ''name'' \<in> set ds \<and> ''region_code'' \<in> set ds
     \<and> (\<forall>c \<in> set [''code_reg'', ''name_reg'', ''code_dep'', ''name_dep''].
            c \<notin> set rs \<and> c \<notin> set ds)
     \<and> (\<forall>c \<in> set rs \<union> set ds. plain_name c)"

text \<open>
  The inputs of the Area Resolver: two tables of these columns whose join keys are of one
  kind (both text, as in the data model, or both numeric).
\<close>

definition resolver_inputs :: "frame \<Rightarrow> frame \<Rightarrow> bool" where
  "resolver_inputs regions departments \<longleftrightarrow>
     wf_frame regions \<and> wf_frame departments
     \<and> resolver_schema (names regions) (names departments)
     \<and> \<not> keys_clash (column_of departments ''region_code'') (column_of regions ''code'')"







section \<open>Example tables\<close>

definition ex_regions :: frame where
  "ex_regions =
     [(''id'', [IntV 1, IntV 2]),
      (''code'', [StrV ''01'', StrV ''02'']),
      (''name'', [StrV ''Alpha'', StrV ''Beta'']),
      (''slug'', [StrV ''alpha'', StrV ''beta''])]"

definition ex_departments :: frame where
  "ex_departments =
     [(''id'', [IntV 1, IntV 2, IntV 3]),
      (''region_code'', [StrV ''01'', StrV ''02'', StrV ''84'']),
      (''code'', [IntV 1, StrV ''2A'', IntV 971]),
      (''name'', [StrV ''Ain'', StrV ''Corse'', StrV ''Guadeloupe'']),
      (''slug'', [StrV ''ain'', StrV ''corse'', StrV ''guadeloupe''])]"






section \<open>Facts about the table operations\<close>

lemma cols_named_append: "cols_named c (f @ g) = cols_named c f @ cols_named c g"
  by (simp add: cols_named_def)

lemma cols_named_map_eq:
  assumes "\<And>n. n \<in> set (names f) \<Longrightarrow> (g n = c) = (n = c0)"
  shows "cols_named c (map (\<lambda>p. (g (fst p), h (snd p))) f) = map h (cols_named c0 f)"
  using assms by (induction f) (auto simp: cols_named_def names_def)

lemma cols_named_map_none:
  assumes "\<And>n. n \<in> set (names f) \<Longrightarrow> g n \<noteq> c"
  shows "cols_named c (map (\<lambda>p. (g (fst p), h (snd p))) f) = []"
  using assms by (induction f) (auto simp: cols_named_def names_def)

lemma cols_named_Nil_iff: "cols_named c f = [] \<longleftrightarrow> c \<notin> set (names f)"
  by (induction f) (auto simp: cols_named_def names_def)

lemma filter_name: "filter (\<lambda>p. fst p = c) f = map (Pair c) (cols_named c f)"
  by (induction f) (auto simp: cols_named_def)

lemma cols_named_distinct:
  "distinct (names f) \<Longrightarrow> (c, vs) \<in> set f \<Longrightarrow> cols_named c f = [vs]"
proof (induction f)
  case Nil then show ?case by simp
next
  case (Cons p f)
  show ?case
  proof (cases "p = (c, vs)")
    case True
    with Cons.prems have "c \<notin> set (names f)" by (simp add: names_def)
    then have "cols_named c f = []" by (simp add: cols_named_Nil_iff)
    with True show ?thesis by (simp add: cols_named_def)
  next
    case False
    with Cons.prems have in_f: "(c, vs) \<in> set f" and d: "distinct (names f)" 
      and "fst p \<notin> set (names f)" by (auto simp: names_def)
    moreover from in_f have "c \<in> set (names f)" unfolding names_def by (metis fst_conv image_eqI set_map)
    ultimately have "fst p \<noteq> c" by auto
    with Cons.IH[OF d in_f] show ?thesis by (simp add: cols_named_def)
  qed
qed

lemma cols_named_setitem:
  assumes "cols_named c f = [old]"
  shows "cols_named c' (df_setitem f c vs) = (if c' = c then [vs] else cols_named c' f)"
proof -
  from assms have "c \<in> set (names f)" using cols_named_Nil_iff[of c f] by auto
  then have eq: "df_setitem f c vs = map (\<lambda>p. if fst p = c then (c, vs) else p) f"
    by (simp add: df_setitem_def)
  have "cols_named c' (map (\<lambda>p. if fst p = c then (c, vs) else p) f)
        = (if c' = c then map (\<lambda>_. vs) (cols_named c f) else cols_named c' f)"
    by (induction f) (auto simp: cols_named_def)
  with eq assms show ?thesis by simp
qed

lemma names_setitem: "c \<in> set (names f) \<Longrightarrow> names (df_setitem f c vs) = names f"
  by (auto simp: df_setitem_def names_def intro!: map_idI)

lemma nth_notin_take: "distinct xs \<Longrightarrow> i < length xs \<Longrightarrow> xs ! i \<notin> set (take i xs)"
  by (metis distinct_take id_take_nth_drop not_distinct_conv_prefix)

lemma suffix_dups_distinct: "distinct ren \<Longrightarrow> suffix_dups orig ren = []"
  by (auto simp: suffix_dups_def filter_empty_conv nth_notin_take)

lemma plain_name_x: "\<not> plain_name (s @ ''_x'')" and plain_name_y: "\<not> plain_name (s @ ''_y'')"
  by (simp_all add: plain_name_def)

lemma column_of_cols_named: "column_of f c = concat (cols_named c f)"
  by (simp add: column_of_def cols_named_def)

lemma cols_named_column_of:
  "distinct (names f) \<Longrightarrow> c \<in> set (names f) \<Longrightarrow> cols_named c f = [column_of f c]"
proof -
  assume d: "distinct (names f)" and "c \<in> set (names f)"
  then obtain vs where "(c, vs) \<in> set f" by (auto simp: names_def)
  with d have "cols_named c f = [vs]" by (rule cols_named_distinct)
  then show ?thesis by (simp add: column_of_cols_named)
qed

lemma names_rename: "names (df_rename m f) = map (rename_name m) (names f)"
  by (simp add: df_rename_def names_def)

lemma cols_named_rename:
  assumes "\<And>n. n \<in> set (names f) \<Longrightarrow> (rename_name m n = c) = (n = c0)"
  shows "cols_named c (df_rename m f) = cols_named c0 f"
  using cols_named_map_eq[where g="rename_name m" and h="\<lambda>x. x" and f=f and c=c and c0=c0] assms
  by (simp add: df_rename_def)

lemma add_suffix_eq_plain:
  assumes "plain_name c" "sfx = ''_x'' \<or> sfx = ''_y''"
  shows "(add_suffix sfx other n = c) = (n = c \<and> c \<notin> set other)"
  using assms plain_name_x[of n] plain_name_y[of n] by (auto simp: add_suffix_def)

lemma add_suffix_distinct:
  assumes "distinct xs" "\<forall>c \<in> set xs. plain_name c" "sfx = ''_x'' \<or> sfx = ''_y''"
  shows "distinct (map (add_suffix sfx other) xs)"
proof -
  have "inj_on (add_suffix sfx other) (set xs)"
  proof (rule inj_onI)
    fix a b assume a: "a \<in> set xs" and b: "b \<in> set xs"
      and eq: "add_suffix sfx other a = add_suffix sfx other b"
    from a b assms(2) have pa: "plain_name a" and pb: "plain_name b" by auto
    show "a = b"
    proof (cases "b \<in> set other")
      case True
      then show ?thesis using eq pa assms(3) plain_name_x[of b] plain_name_y[of b]
        by (auto simp: add_suffix_def split: if_splits)
    next
      case False
      then have "add_suffix sfx other a = b" using eq by (simp add: add_suffix_def)
      with pb assms(3) show ?thesis using add_suffix_eq_plain[of b sfx other a] by auto
    qed
  qed
  with assms(1) show ?thesis by (simp add: distinct_map)
qed

lemma cols_named_merge_columns:
  assumes "plain_name c"
  shows "cols_named c (merge_columns ix l r) =
           (if c \<in> set (names r) then [] else map (take_left ix) (cols_named c l))
           @ (if c \<in> set (names l) then [] else map (take_right ix) (cols_named c r))"
proof -
  have L: "cols_named c (map (\<lambda>p. (add_suffix ''_x'' (names r) (fst p), take_left ix (snd p))) l)
           = (if c \<in> set (names r) then [] else map (take_left ix) (cols_named c l))"
  proof (cases "c \<in> set (names r)")
    case True
    then show ?thesis using add_suffix_eq_plain[OF assms, of "''_x''" "names r"]
      by (simp add: cols_named_map_none)
  next
    case False
    then show ?thesis using add_suffix_eq_plain[OF assms, of "''_x''" "names r"]
      by (simp add: cols_named_map_eq[where ?c0.0=c])
  qed
  have R: "cols_named c (map (\<lambda>p. (add_suffix ''_y'' (names l) (fst p), take_right ix (snd p))) r)
           = (if c \<in> set (names l) then [] else map (take_right ix) (cols_named c r))"
  proof (cases "c \<in> set (names l)")
    case True
    then show ?thesis using add_suffix_eq_plain[OF assms, of "''_y''" "names l"]
      by (simp add: cols_named_map_none)
  next
    case False
    then show ?thesis using add_suffix_eq_plain[OF assms, of "''_y''" "names l"]
      by (simp add: cols_named_map_eq[where ?c0.0=c])
  qed
  show ?thesis unfolding merge_columns_def cols_named_append L R ..
qed

lemma df_merge_ok:
  assumes "distinct (names l)" "distinct (names r)"
    and "\<forall>c \<in> set (names l) \<union> set (names r). plain_name c"
    and "lc \<in> set (names l)" "rc \<in> set (names r)"
    and "\<not> keys_clash (column_of l lc) (column_of r rc)"
  shows "df_merge h lc rc l r
         = Inr (merge_columns (join_indexers h (column_of l lc) (column_of r rc)) l r)"
proof -
  have kl: "key_column l lc = Inr (column_of l lc)"
    using cols_named_column_of[OF assms(1,4)] by (simp add: key_column_def)
  have kr: "key_column r rc = Inr (column_of r rc)"
    using cols_named_column_of[OF assms(2,5)] by (simp add: key_column_def)
  have dl: "suffix_dups (names l) (map (add_suffix ''_x'' (names r)) (names l)) = []"
    using assms(1,3) by (intro suffix_dups_distinct add_suffix_distinct) auto
  have dr: "suffix_dups (names r) (map (add_suffix ''_y'' (names l)) (names r)) = []"
    using assms(2,3) by (intro suffix_dups_distinct add_suffix_distinct) auto
  show ?thesis using assms(6) by (simp add: df_merge_def kl kr dl dr)
qed

section \<open>What the Area Resolver returns\<close>

lemma rename_reg:
  "rename_name [(''code'', ''code_reg''), (''name'', ''name_reg'')] n
   = (if n = ''code'' then ''code_reg'' else if n = ''name'' then ''name_reg'' else n)"
  by (simp add: rename_name_def)

lemma rename_dep:
  "rename_name [(''code'', ''code_dep''), (''name'', ''name_dep'')] n
   = (if n = ''code'' then ''code_dep'' else if n = ''name'' then ''name_dep'' else n)"
  by (simp add: rename_name_def)

lemma plain_four:
  "plain_name ''code_reg''" "plain_name ''name_reg''" "plain_name ''code_dep''" "plain_name ''name_dep''"
  by (simp_all add: plain_name_def)

lemma distinct_map_rename:
  assumes "distinct xs" "a' \<notin> set xs" "b' \<notin> set xs" "a' \<noteq> b'" "a \<noteq> b"
  shows "distinct (map (\<lambda>n. if n = a then a' else if n = b then b' else n) xs)"
proof -
  have "inj_on (\<lambda>n. if n = a then a' else if n = b then b' else n) (set xs)"
    using assms by (auto simp: inj_on_def)
  with assms(1) show ?thesis by (simp add: distinct_map)
qed

lemma cols_named_single_in: "cols_named c f = [vs] \<Longrightarrow> c \<in> set (names f)"
  using cols_named_Nil_iff[of c f] by auto

lemma resolver_result:
  assumes "resolver_inputs regions departments"
  shows "merge_regions_and_departments regions departments =
     Inr [(''code_reg'', take_right (join_indexers LeftJoin (column_of departments ''region_code'')
                                       (column_of regions ''code'')) (column_of regions ''code'')),
          (''name_reg'', take_right (join_indexers LeftJoin (column_of departments ''region_code'')
                                       (column_of regions ''code'')) (column_of regions ''name'')),
          (''code_dep'', take_left (join_indexers LeftJoin (column_of departments ''region_code'')
                                       (column_of regions ''code''))
                            (pad_codes (column_of departments ''code''))),
          (''name_dep'', take_left (join_indexers LeftJoin (column_of departments ''region_code'')
                                       (column_of regions ''code'')) (column_of departments ''name''))]"
proof -
  define R1 where "R1 = df_rename [(''code'', ''code_reg''), (''name'', ''name_reg'')] regions"
  define D1 where "D1 = df_rename [(''code'', ''code_dep''), (''name'', ''name_dep'')] departments"
  define D2 where "D2 = df_setitem D1 ''code_dep'' (pad_codes (column_of departments ''code''))"
  define ix where "ix = join_indexers LeftJoin (column_of departments ''region_code'')
                                       (column_of regions ''code'')"
  from assms have sch: "resolver_schema (names regions) (names departments)"
    and nc: "\<not> keys_clash (column_of departments ''region_code'') (column_of regions ''code'')"
    by (simp_all add: resolver_inputs_def)
  from sch have dR: "distinct (names regions)" and dD: "distinct (names departments)"
    and inR: "''code'' \<in> set (names regions)" "''name'' \<in> set (names regions)"
    and inD: "''code'' \<in> set (names departments)" "''name'' \<in> set (names departments)"
             "''region_code'' \<in> set (names departments)"
    and notR: "''code_reg'' \<notin> set (names regions)" "''name_reg'' \<notin> set (names regions)"
              "''code_dep'' \<notin> set (names regions)" "''name_dep'' \<notin> set (names regions)"
    and notD: "''code_reg'' \<notin> set (names departments)" "''name_reg'' \<notin> set (names departments)"
              "''code_dep'' \<notin> set (names departments)" "''name_dep'' \<notin> set (names departments)"
    and plR: "\<forall>c \<in> set (names regions). plain_name c"
    and plD: "\<forall>c \<in> set (names departments). plain_name c"
    by (simp_all add: resolver_schema_def)
  \<comment> \<open>the columns of the renamed tables\<close>
  have cR: "cols_named ''code_reg'' R1 = [column_of regions ''code'']"
    unfolding R1_def using notR inR dR
    by (subst cols_named_rename[where ?c0.0="''code''"]) (auto simp: rename_reg cols_named_column_of)
  have nR: "cols_named ''name_reg'' R1 = [column_of regions ''name'']"
    unfolding R1_def using notR inR dR
    by (subst cols_named_rename[where ?c0.0="''name''"]) (auto simp: rename_reg cols_named_column_of)
  have cD: "cols_named ''code_dep'' D1 = [column_of departments ''code'']"
    unfolding D1_def using notD inD dD
    by (subst cols_named_rename[where ?c0.0="''code''"]) (auto simp: rename_dep cols_named_column_of)
  have nD: "cols_named ''name_dep'' D1 = [column_of departments ''name'']"
    unfolding D1_def using notD inD dD
    by (subst cols_named_rename[where ?c0.0="''name''"]) (auto simp: rename_dep cols_named_column_of)
  have rD: "cols_named ''region_code'' D1 = [column_of departments ''region_code'']"
    unfolding D1_def using notD inD dD
    by (subst cols_named_rename[where ?c0.0="''region_code''"]) (auto simp: rename_dep cols_named_column_of)
  have namesR1: "names R1 = map (\<lambda>n. if n = ''code'' then ''code_reg'' else if n = ''name'' then ''name_reg'' else n) (names regions)"
    unfolding R1_def names_rename by (simp add: rename_reg)
  have namesD1: "names D1 = map (\<lambda>n. if n = ''code'' then ''code_dep'' else if n = ''name'' then ''name_dep'' else n) (names departments)"
    unfolding D1_def names_rename by (simp add: rename_dep)
  have dR1: "distinct (names R1)" unfolding namesR1 using dR notR by (intro distinct_map_rename) auto
  have dD1: "distinct (names D1)" unfolding namesD1 using dD notD by (intro distinct_map_rename) auto
  have plR1: "\<forall>c \<in> set (names R1). plain_name c" unfolding namesR1 using plR plain_four by auto
  have plD1: "\<forall>c \<in> set (names D1). plain_name c" unfolding namesD1 using plD plain_four by auto
  have in_cd: "''code_dep'' \<in> set (names D1)" using cD cols_named_Nil_iff[of "''code_dep''" D1] by auto
  have namesD2: "names D2 = names D1" unfolding D2_def using in_cd by (rule names_setitem)
  have colsD2: "\<And>c. cols_named c D2 = (if c = ''code_dep'' then [pad_codes (column_of departments ''code'')] else cols_named c D1)"
    unfolding D2_def by (rule cols_named_setitem[OF cD])
  have in_rc: "''region_code'' \<in> set (names D2)"
    using rD cols_named_Nil_iff[of "''region_code''" D1] namesD2 by auto
  have in_cr: "''code_reg'' \<in> set (names R1)" using cR cols_named_Nil_iff[of "''code_reg''" R1] by auto
  have keyD: "column_of D2 ''region_code'' = column_of departments ''region_code''"
    by (simp add: column_of_cols_named colsD2 rD)
  have keyR: "column_of R1 ''code_reg'' = column_of regions ''code''"
    by (simp add: column_of_cols_named cR)
  have merge: "df_merge LeftJoin ''region_code'' ''code_reg'' D2 R1 = Inr (merge_columns ix D2 R1)"
  proof -
    have pl: "\<forall>c \<in> set (names D2) \<union> set (names R1). plain_name c"
      using plD1 plR1 by (auto simp: namesD2)
    have d2: "distinct (names D2)" using dD1 by (simp add: namesD2)
    have k: "\<not> keys_clash (column_of D2 ''region_code'') (column_of R1 ''code_reg'')"
      using nc by (simp add: keyD keyR)
    show ?thesis using df_merge_ok[OF d2 dR1 pl in_rc in_cr k, of LeftJoin]
      by (simp add: keyD keyR ix_def)
  qed
  \<comment> \<open>the four columns of the merged table\<close>
  have notin: "''code_reg'' \<notin> set (names D1)" "''name_reg'' \<notin> set (names D1)"
              "''code_dep'' \<notin> set (names R1)" "''name_dep'' \<notin> set (names R1)"
    unfolding namesD1 namesR1 using notD notR by auto
  have nilD: "cols_named ''code_reg'' D2 = []" "cols_named ''name_reg'' D2 = []"
    using notin by (simp_all add: cols_named_Nil_iff namesD2)
  have nilR: "cols_named ''code_dep'' R1 = []" "cols_named ''name_dep'' R1 = []"
    using notin by (simp_all add: cols_named_Nil_iff)
  have in_nr: "''name_reg'' \<in> set (names R1)" using nR cols_named_Nil_iff[of "''name_reg''" R1] by auto
  have in_nd: "''name_dep'' \<in> set (names D1)" using nD cols_named_Nil_iff[of "''name_dep''" D1] by auto
  have m1: "cols_named ''code_reg'' (merge_columns ix D2 R1) = [take_right ix (column_of regions ''code'')]"
    using notin in_cr by (simp add: cols_named_merge_columns plain_four namesD2 nilD cR)
  have m2: "cols_named ''name_reg'' (merge_columns ix D2 R1) = [take_right ix (column_of regions ''name'')]"
    using notin in_nr by (simp add: cols_named_merge_columns plain_four namesD2 nilD nR)
  have m3: "cols_named ''code_dep'' (merge_columns ix D2 R1) = [take_left ix (pad_codes (column_of departments ''code''))]"
    using notin in_cd by (simp add: cols_named_merge_columns plain_four namesD2 nilR colsD2)
  have m4: "cols_named ''name_dep'' (merge_columns ix D2 R1) = [take_left ix (column_of departments ''name'')]"
    using notin in_nd by (simp add: cols_named_merge_columns plain_four namesD2 nilR colsD2 nD)
  have present: "''code_reg'' \<in> set (names (merge_columns ix D2 R1))"
      "''name_reg'' \<in> set (names (merge_columns ix D2 R1))"
      "''code_dep'' \<in> set (names (merge_columns ix D2 R1))"
      "''name_dep'' \<in> set (names (merge_columns ix D2 R1))"
    using m1 m2 m3 m4 by (simp_all add: cols_named_single_in)
  have sel: "df_select [''code_reg'', ''name_reg'', ''code_dep'', ''name_dep''] (merge_columns ix D2 R1)
      = Inr [(''code_reg'', take_right ix (column_of regions ''code'')),
             (''name_reg'', take_right ix (column_of regions ''name'')),
             (''code_dep'', take_left ix (pad_codes (column_of departments ''code''))),
             (''name_dep'', take_left ix (column_of departments ''name''))]"
    using present by (simp add: df_select_def filter_name m1 m2 m3 m4)
  have get: "df_getitem D1 ''code_dep'' = Inr (column_of departments ''code'')"
    by (simp add: df_getitem_def cD)
  show ?thesis
    unfolding merge_regions_and_departments_def Let_def
    using get merge sel
    by (simp add: R1_def[symmetric] D1_def[symmetric] D2_def[symmetric] ix_def[symmetric])
qed

section \<open>Facts about the join\<close>

lemma matches_conv: "map ((!) rk) (matches k rk) = filter (\<lambda>x. x = k) rk"
proof -
  have "map ((!) rk) (filter (\<lambda>j. rk ! j = k) [0..<length rk])
        = filter (\<lambda>x. x = k) (map ((!) rk) [0..<length rk])"
    by (simp add: filter_map comp_def)
  then show ?thesis by (simp add: matches_def map_nth)
qed

lemma matches_Nil_iff: "matches k rk = [] \<longleftrightarrow> k \<notin> set rk"
proof -
  have "matches k rk = [] \<longleftrightarrow> map ((!) rk) (matches k rk) = []" by simp
  also have "\<dots> \<longleftrightarrow> k \<notin> set rk" unfolding matches_conv by (auto simp: filter_empty_conv)
  finally show ?thesis .
qed

lemma set_matches: "set (matches k rk) = {j. j < length rk \<and> rk ! j = k}"
  by (auto simp: matches_def)

lemma matches_distinct: "distinct rk \<Longrightarrow> length (matches k rk) \<le> 1"
proof -
  assume d: "distinct rk"
  have "length (matches k rk) = length (filter (\<lambda>x. x = k) rk)"
    using arg_cong[OF matches_conv[of rk k], of length] by simp
  also have "\<dots> = card ({x. x = k} \<inter> set rk)" using d by (rule distinct_length_filter)
  also have "\<dots> \<le> card {k}" by (intro card_mono) auto
  finally show ?thesis by simp
qed

lemma length_row_pairs_left:
  "distinct rk \<Longrightarrow> length (row_pairs LeftJoin lk i rk) = 1"
  using matches_distinct[of rk "lk ! i"]
  by (cases "matches (lk ! i) rk") (auto simp: row_pairs_def)

lemma length_join_left:
  assumes "distinct rk"
  shows "length (join_indexers LeftJoin lk rk) = length lk"
proof -
  have "length (join_indexers LeftJoin lk rk)
        = sum_list (map (\<lambda>i. length (row_pairs LeftJoin lk i rk)) [0..<length lk])"
    by (simp add: join_indexers_def length_concat comp_def)
  also have "\<dots> = sum_list (map (\<lambda>i. 1) [0..<length lk])"
    using assms by (simp add: length_row_pairs_left)
  also have "\<dots> = length lk" by (simp add: sum_list_triv)
  finally show ?thesis .
qed

lemma in_row_pairs:
  "(i', oj) \<in> set (row_pairs h lk i rk) \<longleftrightarrow>
     i' = i \<and> (case oj of Some j \<Rightarrow> j < length rk \<and> rk ! j = lk ! i
                         | None \<Rightarrow> lk ! i \<notin> set rk \<and> h = LeftJoin)"
proof (cases "matches (lk ! i) rk = []")
  case True
  then have "lk ! i \<notin> set rk" by (simp add: matches_Nil_iff)
  then have "\<And>j. j < length rk \<Longrightarrow> rk ! j \<noteq> lk ! i" by (metis nth_mem)
  then show ?thesis using True \<open>lk ! i \<notin> set rk\<close>
    by (cases oj) (auto simp: row_pairs_def split: if_splits)
next
  case False
  then have "lk ! i \<in> set rk" by (simp add: matches_Nil_iff)
  then show ?thesis using False
    by (cases oj) (auto simp: row_pairs_def set_matches)
qed

lemma in_join_indexers:
  "(i, oj) \<in> set (join_indexers h lk rk) \<longleftrightarrow>
     i < length lk \<and> (case oj of Some j \<Rightarrow> j < length rk \<and> rk ! j = lk ! i
                                | None \<Rightarrow> lk ! i \<notin> set rk \<and> h = LeftJoin)"
  by (auto simp: join_indexers_def in_row_pairs)

lemma length_column_of:
  assumes "wf_frame f" "c \<in> set (names f)"
  shows "length (column_of f c) = nrows f"
proof -
  from assms obtain vs where in_f: "(c, vs) \<in> set f" by (auto simp: names_def)
  with assms(1) have "cols_named c f = [vs]" by (simp add: wf_frame_def cols_named_distinct)
  moreover from in_f assms(1) have "length vs = nrows f" by (auto simp: wf_frame_def)
  ultimately show ?thesis by (simp add: column_of_cols_named)
qed

lemma resolver_inputs_names:
  assumes "resolver_inputs regions departments"
  shows "''code'' \<in> set (names regions)" "''name'' \<in> set (names regions)"
    "''code'' \<in> set (names departments)" "''name'' \<in> set (names departments)"
    "''region_code'' \<in> set (names departments)" "wf_frame regions" "wf_frame departments"
  using assms by (simp_all add: resolver_inputs_def resolver_schema_def)


section \<open>Facts about the padding of codes\<close>



















lemma column_of_single: "column_of ((c, vs) # f) c' = (if c = c' then vs @ column_of f c' else column_of f c')"
  by (simp add: column_of_def)

lemma column_of_Nil: "column_of [] c = []"
  by (simp add: column_of_def)

lemma row_at_four:
  "row_at [(a, as), (b, bs), (c, cs), (d, ds)] k = [as ! k, bs ! k, cs ! k, ds ! k]"
  by (simp add: row_at_def)

lemma df_select_names:
  assumes "df_select cs f = Inr out"
  shows "set (names out) = set cs"
proof -
  from assms have pres: "\<forall>c \<in> set cs. c \<in> set (names f)"
    and out: "out = concat (map (\<lambda>c. filter (\<lambda>p. fst p = c) f) cs)"
    by (auto simp: df_select_def split: if_splits)
  have "set (names out) = (\<Union>c \<in> set cs. fst ` {p \<in> set f. fst p = c})"
    by (auto simp: out names_def)
  also have "\<dots> = set cs" using pres by (force simp: names_def)
  finally show ?thesis .
qed

lemma resolver_returns_four:
  assumes "merge_regions_and_departments regions departments = Inr out"
  shows "set (names out) = {''code_reg'', ''name_reg'', ''code_dep'', ''name_dep''}"
proof -
  from assms obtain merged where
    "df_select [''code_reg'', ''name_reg'', ''code_dep'', ''name_dep''] merged = Inr out"
    unfolding merge_regions_and_departments_def Let_def by (auto split: sum.splits)
  from df_select_names[OF this] show ?thesis by simp
qed

section \<open>Claims about the Area Resolver\<close>

text \<open>
  Claim C1. For every region table whose \<^verbatim>\<open>code_reg\<close> values (its column \<^verbatim>\<open>code\<close>) are
  unique and every department table, \<^verbatim>\<open>merge_regions_and_departments\<close> returns a table
  with exactly as many rows as the department table: the left join neither drops nor
  repeats a department row.
\<close>

theorem area_resolver_row_count:
  assumes "resolver_inputs regions departments"
    and "distinct (column_of regions ''code'')"
  shows "\<exists>out. merge_regions_and_departments regions departments = Inr out
               \<and> nrows out = nrows departments"
proof -
  have "length (join_indexers LeftJoin (column_of departments ''region_code'')
                  (column_of regions ''code'')) = nrows departments"
    using length_join_left[OF assms(2)] resolver_inputs_names(5,7)[OF assms(1)]
    by (simp add: length_column_of)
  then show ?thesis
    unfolding resolver_result[OF assms(1)] by (simp add: nrows_def take_right_def)
qed

theorem area_resolver_row_count_witness:
  "resolver_inputs ex_regions ex_departments \<and> distinct (column_of ex_regions ''code'')
   \<and> (\<exists>out. merge_regions_and_departments ex_regions ex_departments = Inr out
              \<and> nrows out = nrows ex_departments)"
proof -
  have h1: "resolver_inputs ex_regions ex_departments" by code_simp
  have h2: "distinct (column_of ex_regions ''code'')" by code_simp
  from area_resolver_row_count[OF h1 h2] h1 h2 show ?thesis by blast
qed

text \<open>
  Claim C6. Whatever the two input tables, a table the Area Resolver returns has the four
  columns \<^verbatim>\<open>code_reg\<close>, \<^verbatim>\<open>name_reg\<close>, \<^verbatim>\<open>code_dep\<close>, \<^verbatim>\<open>name_dep\<close> and no other. For
  inputs with the columns of the region and department tables (both carry columns named
  \<^verbatim>\<open>code\<close> and \<^verbatim>\<open>name\<close>) it returns these four columns in this order, each once; and
  every department row whose \<^verbatim>\<open>region_code\<close> matches no region is kept, with its
  (padded) \<^verbatim>\<open>code_dep\<close> and its \<^verbatim>\<open>name_dep\<close>, and with missing \<^verbatim>\<open>code_reg\<close> and
  \<^verbatim>\<open>name_reg\<close>.
\<close>

theorem area_resolver_columns:
  "(\<forall>out. merge_regions_and_departments regions departments = Inr out
       \<longrightarrow> set (names out) = {''code_reg'', ''name_reg'', ''code_dep'', ''name_dep''})
   \<and> (resolver_inputs regions departments \<longrightarrow>
       (\<exists>out. merge_regions_and_departments regions departments = Inr out
           \<and> names out = [''code_reg'', ''name_reg'', ''code_dep'', ''name_dep'']
           \<and> (\<forall>i < nrows departments.
                 column_of departments ''region_code'' ! i \<notin> set (column_of regions ''code'')
                 \<longrightarrow> [NaN, NaN, pad_codes (column_of departments ''code'') ! i,
                      column_of departments ''name'' ! i] \<in> set (rows_of out))))"
proof (intro conjI allI impI)
  fix out assume "merge_regions_and_departments regions departments = Inr out"
  then show "set (names out) = {''code_reg'', ''name_reg'', ''code_dep'', ''name_dep''}"
    by (rule resolver_returns_four)
next
  assume inp: "resolver_inputs regions departments"
  define ix where "ix = join_indexers LeftJoin (column_of departments ''region_code'')
                          (column_of regions ''code'')"
  define out where "out = [(''code_reg'', take_right ix (column_of regions ''code'')),
     (''name_reg'', take_right ix (column_of regions ''name'')),
     (''code_dep'', take_left ix (pad_codes (column_of departments ''code''))),
     (''name_dep'', take_left ix (column_of departments ''name''))]"
  have res: "merge_regions_and_departments regions departments = Inr out"
    unfolding out_def ix_def by (rule resolver_result[OF inp])
  have lens: "length (column_of departments ''code'') = nrows departments"
       "length (column_of departments ''region_code'') = nrows departments"
    using resolver_inputs_names[OF inp] by (simp_all add: length_column_of)
  have nr: "nrows out = length ix" by (simp add: out_def nrows_def take_right_def)
  have "[NaN, NaN, pad_codes (column_of departments ''code'') ! i,
         column_of departments ''name'' ! i] \<in> set (rows_of out)"
    if i: "i < nrows departments"
      and un: "column_of departments ''region_code'' ! i \<notin> set (column_of regions ''code'')" for i
  proof -
    from i un have "(i, None) \<in> set ix" by (simp add: ix_def in_join_indexers lens)
    then obtain k where k: "k < length ix" "ix ! k = (i, None)" by (auto simp: in_set_conv_nth)
    have "row_at out k = [NaN, NaN, pad_codes (column_of departments ''code'') ! i,
         column_of departments ''name'' ! i]"
      using k i by (simp add: out_def row_at_four take_right_def take_left_def)
    moreover have "row_at out k \<in> set (rows_of out)" using k by (simp add: rows_of_def nr)
    ultimately show ?thesis by simp
  qed
  moreover have "names out = [''code_reg'', ''name_reg'', ''code_dep'', ''name_dep'']"
    by (simp add: out_def names_def)
  ultimately show "\<exists>out. merge_regions_and_departments regions departments = Inr out
           \<and> names out = [''code_reg'', ''name_reg'', ''code_dep'', ''name_dep'']
           \<and> (\<forall>i < nrows departments.
                 column_of departments ''region_code'' ! i \<notin> set (column_of regions ''code'')
                 \<longrightarrow> [NaN, NaN, pad_codes (column_of departments ''code'') ! i,
                      column_of departments ''name'' ! i] \<in> set (rows_of out))"
    using res by blast
qed

theorem area_resolver_columns_witness:
  "resolver_inputs ex_regions ex_departments \<and> 2 < nrows ex_departments
   \<and> column_of ex_departments ''region_code'' ! 2 \<notin> set (column_of ex_regions ''code'')
   \<and> (\<exists>out. merge_regions_and_departments ex_regions ex_departments = Inr out
         \<and> set (names out) = {''code_reg'', ''name_reg'', ''code_dep'', ''name_dep''}
         \<and> names out = [''code_reg'', ''name_reg'', ''code_dep'', ''name_dep'']
         \<and> [NaN, NaN, pad_codes (column_of ex_departments ''code'') ! 2,
              column_of ex_departments ''name'' ! 2] \<in> set (rows_of out))"
proof -
  have h: "resolver_inputs ex_regions ex_departments" by code_simp
  have i: "2 < nrows ex_departments" by code_simp
  have u: "column_of ex_departments ''region_code'' ! 2 \<notin> set (column_of ex_regions ''code'')"
    by code_simp
  note T = area_resolver_columns[of ex_regions ex_departments]
  from T[THEN conjunct2, rule_format, OF h] obtain out where
    o: "merge_regions_and_departments ex_regions ex_departments = Inr out"
       "names out = [''code_reg'', ''name_reg'', ''code_dep'', ''name_dep'']"
    and r: "\<forall>i < nrows ex_departments.
              column_of ex_departments ''region_code'' ! i \<notin> set (column_of ex_regions ''code'')
              \<longrightarrow> [NaN, NaN, pad_codes (column_of ex_departments ''code'') ! i,
                   column_of ex_departments ''name'' ! i] \<in> set (rows_of out)"
    by (elim exE conjE)
  from T[THEN conjunct1, rule_format, OF o(1)]
  have s: "set (names out) = {''code_reg'', ''name_reg'', ''code_dep'', ''name_dep''}" .
  from r[rule_format, OF i u]
  have m: "[NaN, NaN, pad_codes (column_of ex_departments ''code'') ! 2,
            column_of ex_departments ''name'' ! 2] \<in> set (rows_of out)" .
  have "\<exists>out. merge_regions_and_departments ex_regions ex_departments = Inr out
         \<and> set (names out) = {''code_reg'', ''name_reg'', ''code_dep'', ''name_dep''}
         \<and> names out = [''code_reg'', ''name_reg'', ''code_dep'', ''name_dep'']
         \<and> [NaN, NaN, pad_codes (column_of ex_departments ''code'') ! 2,
              column_of ex_departments ''name'' ! 2] \<in> set (rows_of out)"
    using o(1) s o(2) m by (intro exI[of _ out] conjI)
  with h i u show ?thesis by (intro conjI)
qed




text \<open>
  Claim C5, as the code has it. The Area Resolver compares the two join keys,
  \<^verbatim>\<open>region_code\<close> of the department table and \<^verbatim>\<open>code\<close> of the region table, as they are
  stored: a department row is joined to a region row exactly when the two cells are
  equal, and gets missing region fields exactly when no region carries its
  \<^verbatim>\<open>region_code\<close>. Only \<^verbatim>\<open>code_dep\<close>, which is not a join key, is padded.
\<close>

theorem area_resolver_join_keys:
  assumes "resolver_inputs regions departments"
  shows "\<exists>out ix. merge_regions_and_departments regions departments = Inr out
           \<and> column_of out ''code_reg'' = take_right ix (column_of regions ''code'')
           \<and> column_of out ''name_reg'' = take_right ix (column_of regions ''name'')
           \<and> column_of out ''code_dep'' = take_left ix (pad_codes (column_of departments ''code''))
           \<and> column_of out ''name_dep'' = take_left ix (column_of departments ''name'')
           \<and> (\<forall>i j. (i, Some j) \<in> set ix \<longleftrightarrow>
                  i < nrows departments \<and> j < nrows regions
                  \<and> column_of regions ''code'' ! j = column_of departments ''region_code'' ! i)
           \<and> (\<forall>i. (i, None) \<in> set ix \<longleftrightarrow>
                  i < nrows departments
                  \<and> column_of departments ''region_code'' ! i \<notin> set (column_of regions ''code''))"
proof -
  define ix where "ix = join_indexers LeftJoin (column_of departments ''region_code'')
                          (column_of regions ''code'')"
  have lens: "length (column_of departments ''region_code'') = nrows departments"
       "length (column_of regions ''code'') = nrows regions"
    using resolver_inputs_names[OF assms] by (simp_all add: length_column_of)
  have a: "\<forall>i j. (i, Some j) \<in> set ix \<longleftrightarrow>
                  i < nrows departments \<and> j < nrows regions
                  \<and> column_of regions ''code'' ! j = column_of departments ''region_code'' ! i"
    by (simp add: ix_def in_join_indexers lens)
  have b: "\<forall>i. (i, None) \<in> set ix \<longleftrightarrow>
                  i < nrows departments
                  \<and> column_of departments ''region_code'' ! i \<notin> set (column_of regions ''code'')"
    by (simp add: ix_def in_join_indexers lens)
  define out where "out = [(''code_reg'', take_right ix (column_of regions ''code'')),
     (''name_reg'', take_right ix (column_of regions ''name'')),
     (''code_dep'', take_left ix (pad_codes (column_of departments ''code''))),
     (''name_dep'', take_left ix (column_of departments ''name''))]"
  have res: "merge_regions_and_departments regions departments = Inr out"
    unfolding out_def ix_def by (rule resolver_result[OF assms])
  have cols: "column_of out ''code_reg'' = take_right ix (column_of regions ''code'')"
    "column_of out ''name_reg'' = take_right ix (column_of regions ''name'')"
    "column_of out ''code_dep'' = take_left ix (pad_codes (column_of departments ''code''))"
    "column_of out ''name_dep'' = take_left ix (column_of departments ''name'')"
    by (simp_all add: out_def column_of_single column_of_Nil)
  from res cols a b show ?thesis by blast
qed

theorem area_resolver_join_keys_witness:
  "resolver_inputs ex_regions ex_departments
   \<and> (\<exists>out ix. merge_regions_and_departments ex_regions ex_departments = Inr out
           \<and> column_of out ''code_reg'' = take_right ix (column_of ex_regions ''code'')
           \<and> column_of out ''name_reg'' = take_right ix (column_of ex_regions ''name'')
           \<and> column_of out ''code_dep'' = take_left ix (pad_codes (column_of ex_departments ''code''))
           \<and> column_of out ''name_dep'' = take_left ix (column_of ex_departments ''name'')
           \<and> (\<forall>i j. (i, Some j) \<in> set ix \<longleftrightarrow>
                  i < nrows ex_departments \<and> j < nrows ex_regions
                  \<and> column_of ex_regions ''code'' ! j = column_of ex_departments ''region_code'' ! i)
           \<and> (\<forall>i. (i, None) \<in> set ix \<longleftrightarrow>
                  i < nrows ex_departments
                  \<and> column_of ex_departments ''region_code'' ! i \<notin> set (column_of ex_regions ''code'')))"
proof -
  have h: "resolver_inputs ex_regions ex_departments" by code_simp
  from area_resolver_join_keys[OF h] h show ?thesis by blast
qed

text \<open>
  Claim C5 as stated fails: the region code \<^verbatim>\<open>1\<close> of a department and the code \<^verbatim>\<open>01\<close>
  of a region differ by a leading zero only, and the department gets missing region
  fields.
\<close>

theorem area_resolver_key_padding_counterexample:
  "zfill 2 ''1'' = ''01''
   \<and> merge_regions_and_departments
        [(''code'', [StrV ''01'']), (''name'', [StrV ''Alpha''])]
        [(''code'', [StrV ''01'']), (''name'', [StrV ''Ain'']), (''region_code'', [StrV ''1''])]
      = Inr [(''code_reg'', [NaN]), (''name_reg'', [NaN]),
             (''code_dep'', [StrV ''01'']), (''name_dep'', [StrV ''Ain''])]"
  by code_simp

section \<open>What the Ballot Joiner returns\<close>


lemma nrows_setitem:
  assumes "c \<in> set (names f)" "length vs = nrows f" "wf_frame f"
  shows "nrows (df_setitem f c vs) = nrows f"
proof (cases f)
  case Nil
  with assms(1) show ?thesis by (simp add: names_def)
next
  case (Cons p f')
  with assms show ?thesis by (cases p) (auto simp: df_setitem_def nrows_def names_def)
qed

lemma wf_setitem:
  assumes "c \<in> set (names f)" "length vs = nrows f" "wf_frame f"
  shows "wf_frame (df_setitem f c vs)"
proof -
  have n: "names (df_setitem f c vs) = names f" using assms(1) by (rule names_setitem)
  have r: "nrows (df_setitem f c vs) = nrows f" using assms by (rule nrows_setitem)
  have "\<forall>p \<in> set (df_setitem f c vs). length (snd p) = nrows f"
    using assms by (auto simp: df_setitem_def wf_frame_def)
  with assms(3) show ?thesis by (auto simp: wf_frame_def n r)
qed












section \<open>Joins on unique keys, and rows without missing values\<close>

lemma matches_single:
  assumes "distinct rk" "k \<in> set rk"
  shows "matches k rk = [hd (matches k rk)]"
proof -
  from assms(2) have "matches k rk \<noteq> []" by (simp add: matches_Nil_iff)
  moreover have "length (matches k rk) \<le> 1" using assms(1) by (rule matches_distinct)
  ultimately show ?thesis by (cases "matches k rk") auto
qed


lemma row_pairs_distinct:
  assumes "distinct rk"
  shows "row_pairs h lk i rk =
           (if lk ! i \<in> set rk then [(i, Some (hd (matches (lk ! i) rk)))]
            else if h = LeftJoin then [(i, None)] else [])"
proof (cases "lk ! i \<in> set rk")
  case True
  then have ne: "matches (lk ! i) rk \<noteq> []" by (simp add: matches_Nil_iff)
  have "map (\<lambda>j. (i, Some j)) (matches (lk ! i) rk) = [(i, Some (hd (matches (lk ! i) rk)))]"
    by (subst matches_single[OF assms True]) simp
  with True ne show ?thesis by (simp add: row_pairs_def)
next
  case False
  then show ?thesis by (simp add: row_pairs_def matches_Nil_iff)
qed



lemma join_left_distinct:
  assumes "distinct rk"
  shows "join_indexers LeftJoin lk rk =
           map (\<lambda>i. (i, if lk ! i \<in> set rk then Some (hd (matches (lk ! i) rk)) else None))
             [0..<length lk]"
proof -
  have "join_indexers LeftJoin lk rk
        = concat (map (\<lambda>i. [(i, if lk ! i \<in> set rk then Some (hd (matches (lk ! i) rk)) else None)])
             [0..<length lk])"
    unfolding join_indexers_def
    by (rule arg_cong[where f=concat]) (simp add: row_pairs_distinct[OF assms])
  then show ?thesis by (simp add: concat_map_singleton)
qed






lemma names_dropna: "names (df_dropna f) = names f"
  by (simp add: names_def df_dropna_def comp_def)


lemma complete_row_merge_none:
  assumes "k < length ix" "ix ! k = (i, None)" "r \<noteq> []"
  shows "\<not> complete_row (merge_columns ix l r) k"
  using assms by (cases r) (auto simp: complete_row_def merge_columns_def take_right_def)




section \<open>Claims about the Ballot Joiner\<close>








section \<open>What the Regional Aggregator returns\<close>











section \<open>Claims about the Regional Aggregator\<close>



section \<open>What the Choropleth Renderer returns\<close>






















section \<open>Claims about the Choropleth Renderer\<close>








end
